theory Spec2Isabelle
  imports Main "HOL-Library.Sublist"
begin

section \<open>JavaScript values\<close>

text \<open>
  The state tree of the editor is plain JSON data. A value is one of the JSON kinds, or
  \<open>Undefined\<close>, which JavaScript yields for a missing property. Numbers are integers
  (page indices, paddings, row counts); strings are lists of UTF-16 code units below 256.
  An object is its list of own properties in insertion order. Inherited members
  (\<open>toString\<close>, \<open>constructor\<close>, ...) are not part of the model: a key that is not an
  own property reads as \<open>Undefined\<close>. Values are trees, so two places of the state never
  share one mutable object.
\<close>

datatype jsval =
    Undefined
  | Null
  | Bool bool
  | Num int
  | Str string
  | Arr "jsval list"
  | Obj "(string \<times> jsval) list"

text \<open>
  Exceptions are values. \<open>Unsupported\<close> is not a JavaScript exception: it marks the
  few operations on ill-typed data whose JavaScript meaning (array expando properties,
  writes to \<open>length\<close>, numeric coercion of non-numbers) lies outside this model.
\<close>

datatype js_error = TypeError | SyntaxError | RangeError | Unsupported

text \<open>Truthiness, as tested by \<open>!x\<close>, \<open>x || y\<close> and \<open>if (x)\<close>.\<close>

fun truthy :: "jsval \<Rightarrow> bool" where
  "truthy Undefined = False"
| "truthy Null = False"
| "truthy (Bool b) = b"
| "truthy (Num n) = (n \<noteq> 0)"
| "truthy (Str s) = (s \<noteq> [])"
| "truthy (Arr xs) = True"
| "truthy (Obj kvs) = True"

subsection \<open>Strings\<close>

text \<open>\<open>s.startsWith(q)\<close> and \<open>s.includes(q)\<close>.\<close>

fun startsWith :: "string \<Rightarrow> string \<Rightarrow> bool" where
  "startsWith s [] = True"
| "startsWith [] (q # qs) = False"
| "startsWith (c # s) (q # qs) = (c = q \<and> startsWith s qs)"

fun includesStr :: "string \<Rightarrow> string \<Rightarrow> bool" where
  "includesStr [] q = (q = [])"
| "includesStr (c # s) q = (startsWith (c # s) q \<or> includesStr s q)"

text \<open>
  \<open>s.split(sep)\<close> always has a first piece; the case of no piece below is never
  reached.
\<close>

fun splitOn :: "char \<Rightarrow> string \<Rightarrow> string list" where
  "splitOn sep [] = [[]]"
| "splitOn sep (c # cs) =
     (if c = sep then [] # splitOn sep cs
      else (case splitOn sep cs of
              [] \<Rightarrow> [[c]]
            | piece # pieces \<Rightarrow> (c # piece) # pieces))"

text \<open>\<open>s.toLowerCase()\<close>, on code units below 256.\<close>

definition lowerChar :: "char \<Rightarrow> char" where
  "lowerChar c =
     (let n = (of_char c :: nat)
      in if (65 \<le> n \<and> n \<le> 90) \<or> (192 \<le> n \<and> n \<le> 222 \<and> n \<noteq> 215)
         then char_of (n + 32) else c)"

definition toLowerCase :: "string \<Rightarrow> string" where
  "toLowerCase s = map lowerChar s"



text \<open>
  Decimal numerals: the text of a template literal \<open>${n}\<close> for a non-negative integer,
  and the keys that address array elements (canonical numerals below \<open>2^32 - 1\<close>).
\<close>

fun decimal :: "nat \<Rightarrow> string" where
  "decimal n = (if n < 10 then [char_of (48 + n)]
                else decimal (n div 10) @ [char_of (48 + n mod 10)])"

definition isDigit :: "char \<Rightarrow> bool" where
  "isDigit c = (48 \<le> (of_char c :: nat) \<and> (of_char c :: nat) \<le> 57)"

definition numeral_value :: "string \<Rightarrow> nat" where
  "numeral_value s = foldl (\<lambda>n c. 10 * n + (of_char c - 48)) 0 s"

definition arrayIndex :: "string \<Rightarrow> nat option" where
  "arrayIndex k =
     (if k \<noteq> [] \<and> list_all isDigit k \<and> (hd k \<noteq> CHR ''0'' \<or> k = ''0'')
         \<and> numeral_value k < 4294967295
      then Some (numeral_value k) else None)"

subsection \<open>Property access\<close>

text \<open>
  \<open>assign k v kvs\<close> is \<open>obj[k] = v\<close> on the property list: an existing property keeps
  its place, a new one goes last.
\<close>

primrec assign :: "'k \<Rightarrow> 'v \<Rightarrow> ('k \<times> 'v) list \<Rightarrow> ('k \<times> 'v) list" where
  "assign k v [] = [(k, v)]"
| "assign k v (p # ps) = (if fst p = k then (k, v) # ps else p # assign k v ps)"

text \<open>The read \<open>cur[k]\<close>. Reading a property of \<open>null\<close> or \<open>undefined\<close> throws.\<close>

fun getProp :: "jsval \<Rightarrow> string \<Rightarrow> js_error + jsval" where
  "getProp Undefined k = Inl TypeError"
| "getProp Null k = Inl TypeError"
| "getProp (Bool b) k = Inr Undefined"
| "getProp (Num n) k = Inr Undefined"
| "getProp (Str s) k =
     (case arrayIndex k of
        Some i \<Rightarrow> Inr (if i < length s then Str [s ! i] else Undefined)
      | None \<Rightarrow> Inr (if k = ''length'' then Num (int (length s)) else Undefined))"
| "getProp (Arr xs) k =
     (case arrayIndex k of
        Some i \<Rightarrow> Inr (if i < length xs then xs ! i else Undefined)
      | None \<Rightarrow> Inr (if k = ''length'' then Num (int (length xs)) else Undefined))"
| "getProp (Obj kvs) k =
     (case map_of kvs k of Some v \<Rightarrow> Inr v | None \<Rightarrow> Inr Undefined)"

text \<open>
  The write \<open>cur[k] = v\<close>, returning the container after the write. The scripts are not
  in strict mode, so a write to a property of a primitive is dropped silently. A write
  past the end of an array extends it, the gap reading as \<open>undefined\<close>.
\<close>

fun setProp :: "jsval \<Rightarrow> string \<Rightarrow> jsval \<Rightarrow> js_error + jsval" where
  "setProp Undefined k v = Inl TypeError"
| "setProp Null k v = Inl TypeError"
| "setProp (Bool b) k v = Inr (Bool b)"
| "setProp (Num n) k v = Inr (Num n)"
| "setProp (Str s) k v = Inr (Str s)"
| "setProp (Arr xs) k v =
     (case arrayIndex k of
        Some i \<Rightarrow> Inr (if i < length xs then Arr (xs[i := v])
                       else Arr (xs @ replicate (i - length xs) Undefined @ [v]))
      | None \<Rightarrow> Inl Unsupported)"
| "setProp (Obj kvs) k v = Inr (Obj (assign k v kvs))"

text \<open>
  JavaScript mutates a nested object through a reference. In the model the mutated
  child is written back into its container; a primitive child cannot have changed, so
  nothing is written back for it.
\<close>

fun replaceChild :: "jsval \<Rightarrow> string \<Rightarrow> jsval \<Rightarrow> jsval" where
  "replaceChild (Obj kvs) k c = Obj (assign k c kvs)"
| "replaceChild (Arr xs) k c =
     (case arrayIndex k of
        Some i \<Rightarrow> (if i < length xs then Arr (xs[i := c]) else Arr xs)
      | None \<Rightarrow> Arr xs)"
| "replaceChild cur k c = cur"

text \<open>The spread \<open>[...v]\<close> of an iterable.\<close>

fun spread :: "jsval \<Rightarrow> js_error + jsval list" where
  "spread (Arr xs) = Inr xs"
| "spread (Str s) = Inr (map (\<lambda>c. Str [c]) s)"
| "spread v = Inl TypeError"

section \<open>Utils\<close>

text \<open>
  \<open>generateId(prefix)\<close> is \<open>`${prefix}-${Math.random().toString(36).substr(2, 9)}`\<close>.
  The random text is an input of the model.
\<close>

definition generateId :: "string \<Rightarrow> string \<Rightarrow> string" where
  "generateId pre random = pre @ ''-'' @ random"

text \<open>
  \<open>deepClone(obj)\<close> is \<open>JSON.parse(JSON.stringify(obj))\<close>. \<open>jsonCopy\<close> is the round
  trip of a value inside a document: \<open>undefined\<close> becomes \<open>null\<close> in an array and the
  property is left out of an object. At top level \<open>JSON.stringify(undefined)\<close> is
  \<open>undefined\<close>, which \<open>JSON.parse\<close> reads as the text \<open>undefined\<close> and rejects.
\<close>

definition undefinedToNull :: "jsval \<Rightarrow> jsval" where
  "undefinedToNull v = (if v = Undefined then Null else v)"

primrec jsonCopy :: "jsval \<Rightarrow> jsval" where
  "jsonCopy Undefined = Undefined"
| "jsonCopy Null = Null"
| "jsonCopy (Bool b) = Bool b"
| "jsonCopy (Num n) = Num n"
| "jsonCopy (Str s) = Str s"
| "jsonCopy (Arr xs) = Arr (map undefinedToNull (map jsonCopy xs))"
| "jsonCopy (Obj kvs) =
     Obj (filter (\<lambda>kv. snd kv \<noteq> Undefined) (map (map_prod id jsonCopy) kvs))"

text \<open>
  The text that \<open>JSON.stringify\<close> writes is a string, and a string has a greatest
  length: \<open>2^29 - 24\<close> code units in V8. For a longer text \<open>JSON.stringify\<close> throws
  RangeError (invalid string length), and so does \<open>deepClone\<close>. \<open>jsonLength v\<close> is
  the length of the text of \<open>v\<close>. In a string a quotation mark, a backslash and the
  control characters with a short escape take two code units, the other control
  characters six, every other code unit one. The items of an array and the members of an
  object are separated by commas; a member is its quoted key, a colon and its value; an
  item that is \<open>undefined\<close> is written \<open>null\<close> and a member that is \<open>undefined\<close> is
  left out. Numbers are integers of fewer than 22 digits, written in decimal.
\<close>

definition maxStringLength :: nat where
  "maxStringLength = 2 ^ 29 - 24"

definition escapedLength :: "char \<Rightarrow> nat" where
  "escapedLength c =
     (let n = (of_char c :: nat)
      in if n = 34 \<or> n = 92 \<or> n \<in> {8, 9, 10, 12, 13} then 2
         else if n < 32 then 6 else 1)"

definition quotedLength :: "string \<Rightarrow> nat" where
  "quotedLength s = 2 + sum_list (map escapedLength s)"

fun jsonLength :: "jsval \<Rightarrow> nat" where
  "jsonLength Undefined = 0"
| "jsonLength Null = 4"
| "jsonLength (Bool b) = (if b then 4 else 5)"
| "jsonLength (Num n) = (if n < 0 then 1 else 0) + length (decimal (nat \<bar>n\<bar>))"
| "jsonLength (Str s) = quotedLength s"
| "jsonLength (Arr xs) =
     2 + sum_list (map (\<lambda>x. if x = Undefined then 4 else jsonLength x) xs) + (length xs - 1)"
| "jsonLength (Obj kvs) =
     2 + sum_list (map (\<lambda>kv. if snd kv = Undefined then 0
                              else quotedLength (fst kv) + 1 + jsonLength (snd kv)) kvs)
       + (length (filter (\<lambda>kv. snd kv \<noteq> Undefined) kvs) - 1)"

definition fits :: "jsval \<Rightarrow> bool" where
  "fits v = (jsonLength v \<le> maxStringLength)"

definition deepClone :: "jsval \<Rightarrow> js_error + jsval" where
  "deepClone obj =
     (if obj = Undefined then Inl SyntaxError
      else if fits obj then Inr (jsonCopy obj)
      else Inl RangeError)"

text \<open>Comparison with zero, \<open>x > 0\<close>, for the values whose coercion is plain.\<close>

fun greaterThanZero :: "jsval \<Rightarrow> js_error + bool" where
  "greaterThanZero (Num n) = Inr (n > 0)"
| "greaterThanZero Undefined = Inr False"
| "greaterThanZero Null = Inr False"
| "greaterThanZero (Bool b) = Inr b"
| "greaterThanZero v = Inl Unsupported"

section \<open>EventSystem\<close>

text \<open>
  A listener is a function object. \<open>Callback c\<close> is a function of the surrounding
  application, known by its identity \<open>c\<close> only: its body is outside the model, and the
  model records that it was called and with which data. \<open>WatchHandler i paths c\<close> is the
  closure that \<open>StateManager.watch(paths, c)\<close> creates; \<open>i\<close> tells two such closures
  apart. Listeners are taken not to call back into the modules while an event is being
  delivered.
\<close>

datatype handler = Callback nat | WatchHandler nat "string list" nat

datatype effect = Call handler jsval | Alert string | Confirm string

definition listenersFor :: "(string \<times> handler list) list \<Rightarrow> string \<Rightarrow> handler list" where
  "listenersFor ls event = (case map_of ls event of Some hs \<Rightarrow> hs | None \<Rightarrow> [])"

definition on :: "(string \<times> handler list) list \<Rightarrow> string \<Rightarrow> handler \<Rightarrow> (string \<times> handler list) list" where
  "on ls event callback = assign event (listenersFor ls event @ [callback]) ls"

definition off :: "(string \<times> handler list) list \<Rightarrow> string \<Rightarrow> handler \<Rightarrow> (string \<times> handler list) list" where
  "off ls event callback =
     (case map_of ls event of
        Some hs \<Rightarrow> assign event (filter (\<lambda>cb. cb \<noteq> callback) hs) ls
      | None \<Rightarrow> ls)"

definition cleanup :: "(string \<times> handler list) list \<Rightarrow> (string \<times> handler list) list" where
  "cleanup ls = map (\<lambda>entry. (fst entry, [])) ls"

section \<open>StateManager\<close>

text \<open>
  The module variables \<open>initialState\<close>, \<open>state\<close> and \<open>changedPaths\<close>, together with the
  listener table of EventSystem and a counter that numbers the closures made by
  \<open>watch\<close>. An operation returns the world after it and the effects it had on the
  outside, in order, or the exception it threw.
\<close>

record world =
  initialState :: jsval
  state :: jsval
  changedPaths :: "string list"
  listeners :: "(string \<times> handler list) list"
  closures :: nat

definition makeInitialState :: "string \<Rightarrow> string \<Rightarrow> string \<Rightarrow> jsval" where
  "makeInitialState r1 r2 r3 =
     Obj [
       (''document'', Obj [
          (''id'', Str (generateId ''doc'' r1)),
          (''name'', Str ''Untitled Template''),
          (''pages'', Arr [
             Obj [
               (''id'', Str (generateId ''page'' r2)),
               (''header'', Str []),
               (''footer'', Str []),
               (''blocks'', Arr [
                  Obj [(''id'', Str (generateId ''block'' r3)),
                       (''type'', Str ''text''),
                       (''content'', Str [])]]),
               (''settings'', Obj [
                  (''size'', Str ''A4''),
                  (''orientation'', Str ''portrait''),
                  (''padding'', Obj [(''top'', Num 2), (''right'', Num 2),
                                     (''bottom'', Num 2), (''left'', Num 2)])])]])]),
       (''ui'', Obj [
          (''currentPage'', Num 0),
          (''activeElement'', Null),
          (''selectionRange'', Null),
          (''showMentionPanel'', Bool False),
          (''showStylePanel'', Bool False),
          (''mentionQuery'', Str []),
          (''autoSaveStatus'', Str ''saved''),
          (''activeTab'', Str ''create'')]),
       (''history'', Obj [(''past'', Arr []), (''future'', Arr [])])]"

definition startWorld :: "jsval \<Rightarrow> world" where
  "startWorld init =
     \<lparr>initialState = init, state = jsonCopy init, changedPaths = [],
      listeners = [], closures = 0\<rparr>"

subsection \<open>Paths\<close>

definition hasPathChanged :: "string list \<Rightarrow> string \<Rightarrow> bool" where
  "hasPathChanged cps path =
     list_ex (\<lambda>changedPath.
        changedPath = path
        \<or> startsWith changedPath (path @ ''.'')
        \<or> startsWith path (changedPath @ ''.'')) cps"

fun getAtParts :: "jsval \<Rightarrow> string list \<Rightarrow> js_error + jsval" where
  "getAtParts current [] = Inr current"
| "getAtParts current (part # parts) =
     (if current = Null \<or> current = Undefined then Inr Undefined
      else (case getProp current part of
              Inl e \<Rightarrow> Inl e
            | Inr next \<Rightarrow> getAtParts next parts))"

definition getValueAtPath :: "jsval \<Rightarrow> string \<Rightarrow> js_error + jsval" where
  "getValueAtPath obj path = getAtParts obj (splitOn CHR ''.'' path)"

text \<open>
  The loop of \<open>setValueAtPath\<close> walks down to the parent of the last part, putting an
  empty object wherever the next part is falsy, and then writes the value. The first
  equation is the loop on no parts at all, which \<open>split\<close> never returns: the key is then
  \<open>parts[-1]\<close>, that is \<open>undefined\<close>.
\<close>

fun setAtParts :: "jsval \<Rightarrow> string list \<Rightarrow> jsval \<Rightarrow> js_error + jsval" where
  "setAtParts current [] v = setProp current ''undefined'' v"
| "setAtParts current [part] v = setProp current part v"
| "setAtParts current (part # parts) v =
     (case getProp current part of
        Inl e \<Rightarrow> Inl e
      | Inr c \<Rightarrow>
         (case (if truthy c then Inr current else setProp current part (Obj [])) of
            Inl e \<Rightarrow> Inl e
          | Inr current1 \<Rightarrow>
             (case getProp current1 part of
                Inl e \<Rightarrow> Inl e
              | Inr child \<Rightarrow>
                 (case setAtParts child parts v of
                    Inl e \<Rightarrow> Inl e
                  | Inr child' \<Rightarrow> Inr (replaceChild current1 part child')))))"

definition setValueAtPath :: "jsval \<Rightarrow> string list \<Rightarrow> string \<Rightarrow> jsval \<Rightarrow> js_error + (jsval \<times> string list)" where
  "setValueAtPath obj cps path v =
     (case setAtParts obj (splitOn CHR ''.'' path) v of
        Inl e \<Rightarrow> Inl e
      | Inr obj' \<Rightarrow> Inr (obj', cps @ [path]))"

subsection \<open>Delivery of events\<close>

text \<open>
  \<open>EventSystem.emit\<close> calls the listeners of the event in the order of registration.
  The closure made by \<open>watch\<close> reads \<open>changedPaths\<close> when it runs and calls its callback
  only if one of its paths has changed.
\<close>

fun invoke :: "string list \<Rightarrow> jsval \<Rightarrow> handler \<Rightarrow> effect list" where
  "invoke cps data (Callback c) = [Call (Callback c) data]"
| "invoke cps data (WatchHandler i pathArray c) =
     (if list_ex (hasPathChanged cps) pathArray
      then [Call (WatchHandler i pathArray c) data] else [])"

definition emit :: "world \<Rightarrow> string \<Rightarrow> jsval \<Rightarrow> effect list" where
  "emit w event data =
     concat (map (invoke (changedPaths w) data) (listenersFor (listeners w) event))"

subsection \<open>Reading\<close>

definition getState :: "world \<Rightarrow> js_error + jsval" where
  "getState w = deepClone (state w)"

definition get :: "world \<Rightarrow> string \<Rightarrow> js_error + jsval" where
  "get w path =
     (case getValueAtPath (state w) path of
        Inl e \<Rightarrow> Inl e
      | Inr v \<Rightarrow> deepClone v)"

subsection \<open>update\<close>

text \<open>
  The first argument of \<open>update\<close> is a path with its value, or an object of updates,
  given by its entries in the order of \<open>Object.entries\<close>.
\<close>

datatype updates = Path string jsval | Updates "(string \<times> jsval) list"

fun entries :: "updates \<Rightarrow> (string \<times> jsval) list" where
  "entries (Path path v) = [(path, v)]"
| "entries (Updates us) = us"

fun setAll :: "jsval \<Rightarrow> string list \<Rightarrow> (string \<times> jsval) list \<Rightarrow> js_error + (jsval \<times> string list)" where
  "setAll obj cps [] = Inr (obj, cps)"
| "setAll obj cps (u # us) =
     (case setValueAtPath obj cps (fst u) (snd u) of
        Inl e \<Rightarrow> Inl e
      | Inr (obj', cps') \<Rightarrow> setAll obj' cps' us)"

text \<open>
  \<open>state.history.past.push(prevState); state.history.future = [];\<close> and then
  \<open>state.history.past.shift()\<close> if the array has more than 50 elements.
\<close>

definition pushHistory :: "jsval \<Rightarrow> jsval \<Rightarrow> js_error + jsval" where
  "pushHistory st prevState =
     (case getProp st ''history'' of
        Inl e \<Rightarrow> Inl e
      | Inr h \<Rightarrow>
         (case getProp h ''past'' of
            Inl e \<Rightarrow> Inl e
          | Inr (Arr ps) \<Rightarrow>
             (let pushed = ps @ [prevState]
              in case setProp (replaceChild h ''past'' (Arr pushed)) ''future'' (Arr []) of
                   Inl e \<Rightarrow> Inl e
                 | Inr h1 \<Rightarrow>
                    Inr (replaceChild st ''history''
                           (if length pushed > 50
                            then replaceChild h1 ''past'' (Arr (tl pushed)) else h1)))
          | Inr _ \<Rightarrow> Inl TypeError))"

definition update :: "world \<Rightarrow> updates \<Rightarrow> js_error + (world \<times> effect list)" where
  "update w pathOrUpdates =
     (case deepClone (state w) of
        Inl e \<Rightarrow> Inl e
      | Inr prevState \<Rightarrow>
         (case setAll (state w) [] (entries pathOrUpdates) of
            Inl e \<Rightarrow> Inl e
          | Inr (st, cps) \<Rightarrow>
             if cps \<noteq> [] then
               (case pushHistory st prevState of
                  Inl e \<Rightarrow> Inl e
                | Inr st' \<Rightarrow>
                   (case deepClone st' of
                      Inl e \<Rightarrow> Inl e
                    | Inr snapshot \<Rightarrow>
                       (let w' = w\<lparr>state := st', changedPaths := cps\<rparr>
                        in Inr (w', emit w' ''state:changed''
                                  (Obj [(''changedPaths'', Arr (map Str cps)),
                                        (''state'', snapshot)])))))
             else Inr (w\<lparr>state := st, changedPaths := cps\<rparr>, [])))"

subsection \<open>undo, redo, reset\<close>

definition undo :: "world \<Rightarrow> js_error + (world \<times> effect list)" where
  "undo w =
     (case getProp (state w) ''history'' of
        Inl e \<Rightarrow> Inl e
      | Inr h \<Rightarrow>
     (case getProp h ''past'' of
        Inl e \<Rightarrow> Inl e
      | Inr past \<Rightarrow>
     (case getProp past ''length'' of
        Inl e \<Rightarrow> Inl e
      | Inr len \<Rightarrow>
     (case greaterThanZero len of
        Inl e \<Rightarrow> Inl e
      | Inr False \<Rightarrow> Inr (w, [])
      | Inr True \<Rightarrow>
     (case deepClone (state w) of
        Inl e \<Rightarrow> Inl e
      | Inr snapshot \<Rightarrow>
     (case getProp h ''future'' of
        Inl e \<Rightarrow> Inl e
      | Inr future \<Rightarrow>
     (case spread future of
        Inl e \<Rightarrow> Inl e
      | Inr fs \<Rightarrow>
     (case past of
        Arr ps \<Rightarrow>
         (let newFuture = snapshot # fs; popped = last ps
          in case getProp popped ''history'' of
               Inl e \<Rightarrow> Inl e
             | Inr h' \<Rightarrow>
                (case setProp h' ''future'' (Arr newFuture) of
                   Inl e \<Rightarrow> Inl e
                 | Inr h'' \<Rightarrow>
                    (let st' = replaceChild popped ''history'' h''
                     in case deepClone st' of
                          Inl e \<Rightarrow> Inl e
                        | Inr snapshot' \<Rightarrow>
                           (let w' = w\<lparr>state := st'\<rparr>
                            in Inr (w', emit w' ''state:undo''
                                      (Obj [(''state'', snapshot')]))))))
      | _ \<Rightarrow> Inl TypeError))))))))"

definition redo :: "world \<Rightarrow> js_error + (world \<times> effect list)" where
  "redo w =
     (case getProp (state w) ''history'' of
        Inl e \<Rightarrow> Inl e
      | Inr h \<Rightarrow>
     (case getProp h ''future'' of
        Inl e \<Rightarrow> Inl e
      | Inr future \<Rightarrow>
     (case getProp future ''length'' of
        Inl e \<Rightarrow> Inl e
      | Inr len \<Rightarrow>
     (case greaterThanZero len of
        Inl e \<Rightarrow> Inl e
      | Inr False \<Rightarrow> Inr (w, [])
      | Inr True \<Rightarrow>
     (case getProp h ''past'' of
        Inl e \<Rightarrow> Inl e
      | Inr past \<Rightarrow>
     (case spread past of
        Inl e \<Rightarrow> Inl e
      | Inr ps \<Rightarrow>
     (case deepClone (state w) of
        Inl e \<Rightarrow> Inl e
      | Inr snapshot \<Rightarrow>
     (case future of
        Arr fs \<Rightarrow>
         (let newPast = ps @ [snapshot]; shifted = hd fs
          in case getProp shifted ''history'' of
               Inl e \<Rightarrow> Inl e
             | Inr h' \<Rightarrow>
                (case setProp h' ''past'' (Arr newPast) of
                   Inl e \<Rightarrow> Inl e
                 | Inr h'' \<Rightarrow>
                    (let st' = replaceChild shifted ''history'' h''
                     in case deepClone st' of
                          Inl e \<Rightarrow> Inl e
                        | Inr snapshot' \<Rightarrow>
                           (let w' = w\<lparr>state := st'\<rparr>
                            in Inr (w', emit w' ''state:redo''
                                      (Obj [(''state'', snapshot')]))))))
      | _ \<Rightarrow> Inl TypeError))))))))"

definition reset :: "world \<Rightarrow> js_error + (world \<times> effect list)" where
  "reset w =
     (case deepClone (initialState w) of
        Inl e \<Rightarrow> Inl e
      | Inr st \<Rightarrow>
         (case deepClone st of
            Inl e \<Rightarrow> Inl e
          | Inr snapshot \<Rightarrow>
             (let w' = w\<lparr>state := st\<rparr>
              in Inr (w', emit w' ''state:reset'' (Obj [(''state'', snapshot)])))))"

subsection \<open>watch\<close>

datatype watch_paths = OnePath string | PathArray "string list"

fun pathArrayOf :: "watch_paths \<Rightarrow> string list" where
  "pathArrayOf (OnePath path) = [path]"
| "pathArrayOf (PathArray paths) = paths"

text \<open>
  \<open>watch\<close> returns the subscription, here the registered closure itself, whose
  \<open>unsubscribe\<close> is \<open>EventSystem.off('state:changed', handler)\<close>.
\<close>

definition watch :: "world \<Rightarrow> watch_paths \<Rightarrow> nat \<Rightarrow> handler \<times> world" where
  "watch w paths callback =
     (let h = WatchHandler (closures w) (pathArrayOf paths) callback
      in (h, w\<lparr>listeners := on (listeners w) ''state:changed'' h,
                closures := closures w + 1\<rparr>))"

definition unsubscribe :: "world \<Rightarrow> string \<Rightarrow> handler \<Rightarrow> world" where
  "unsubscribe w event h = w\<lparr>listeners := off (listeners w) event h\<rparr>"

section \<open>PageManager\<close>








section \<open>TextEditor\<close>

text \<open>
  The editable surface belongs to the browser. The model keeps of the active editor what
  the module reads: the id of its block, its content, and the offsets of the current
  selection in it. The content is plain text, so \<open>innerHTML\<close> and \<open>textContent\<close> agree.
  \<open>mentionTriggerPos\<close> is \<open>{range, query}\<close>; of the range only the start offset is read.
\<close>

record editorElement =
  parentBlockId :: string
  content :: string
  startOffset :: nat
  endOffset :: nat

record mentionTrigger =
  rangeStartOffset :: nat
  query :: string

record textEditor =
  activeEditor :: "editorElement option"
  lastKeyPressed :: "string option"
  mentionTriggerPos :: "mentionTrigger option"

text \<open>
  What the module asks of the browser: \<open>Range.deleteContents\<close> on the range between
  two offsets, \<open>document.execCommand('insertHTML', false, html)\<close>, and the DOM parser
  behind \<open>Utils.sanitizeHtml\<close>.
\<close>

record browser =
  deleteContents :: "nat \<Rightarrow> nat \<Rightarrow> editorElement \<Rightarrow> editorElement"
  insertHTML :: "string \<Rightarrow> editorElement \<Rightarrow> editorElement"
  sanitizeHtml :: "string \<Rightarrow> string"

text \<open>A browser for plain text: deletion and insertion of characters, nothing to sanitize.\<close>

definition plainText :: browser where
  "plainText =
     \<lparr>deleteContents = (\<lambda>a b ed.
        ed\<lparr>content := take a (content ed) @ drop b (content ed),
           startOffset := a, endOffset := a\<rparr>),
      insertHTML = (\<lambda>html ed.
        ed\<lparr>content := take (startOffset ed) (content ed) @ html @ drop (endOffset ed) (content ed),
           startOffset := startOffset ed + length html,
           endOffset := startOffset ed + length html\<rparr>),
      sanitizeHtml = (\<lambda>html. html)\<rparr>"

text \<open>
  The search shared by \<open>saveBlockContent\<close>, \<open>addBlockAfter\<close> and \<open>deleteBlock\<close>: two
  nested \<open>forEach\<close> loops that overwrite \<open>pageIndex\<close> and \<open>blockIndex\<close> at every block
  with the id, so the last one found stays.
\<close>

fun scanBlocks :: "jsval list \<Rightarrow> string \<Rightarrow> nat \<Rightarrow> nat \<Rightarrow> (nat \<times> nat) option \<Rightarrow> js_error + (nat \<times> nat) option" where
  "scanBlocks [] blockId pIndex bIndex found = Inr found"
| "scanBlocks (block # blocks) blockId pIndex bIndex found =
     (case getProp block ''id'' of
        Inl e \<Rightarrow> Inl e
      | Inr v \<Rightarrow>
         scanBlocks blocks blockId pIndex (bIndex + 1)
           (if v = Str blockId then Some (pIndex, bIndex) else found))"

fun scanPages :: "jsval list \<Rightarrow> string \<Rightarrow> nat \<Rightarrow> (nat \<times> nat) option \<Rightarrow> js_error + (nat \<times> nat) option" where
  "scanPages [] blockId pIndex found = Inr found"
| "scanPages (page # pages) blockId pIndex found =
     (case getProp page ''blocks'' of
        Inl e \<Rightarrow> Inl e
      | Inr (Arr blocks) \<Rightarrow>
         (case scanBlocks blocks blockId pIndex 0 found of
            Inl e \<Rightarrow> Inl e
          | Inr found' \<Rightarrow> scanPages pages blockId (pIndex + 1) found')
      | Inr _ \<Rightarrow> Inl TypeError)"

text \<open>\<open>StateManager.getState().document.pages\<close> and the search in it.\<close>

definition locateBlock :: "world \<Rightarrow> string \<Rightarrow> js_error + (jsval list \<times> (nat \<times> nat) option)" where
  "locateBlock w blockId =
     (case getState w of
        Inl e \<Rightarrow> Inl e
      | Inr st \<Rightarrow>
     (case getProp st ''document'' of
        Inl e \<Rightarrow> Inl e
      | Inr doc \<Rightarrow>
     (case getProp doc ''pages'' of
        Inl e \<Rightarrow> Inl e
      | Inr (Arr pages) \<Rightarrow>
         (case scanPages pages blockId 0 None of
            Inl e \<Rightarrow> Inl e
          | Inr found \<Rightarrow> Inr (pages, found))
      | Inr _ \<Rightarrow> Inl TypeError)))"

text \<open>
  \<open>saveBlockContent\<close>. The later \<open>update('ui.autoSaveStatus', 'saved')\<close> runs from a
  timer, after the call has returned, and is not part of it.
\<close>

definition saveBlockContent :: "browser \<Rightarrow> world \<Rightarrow> string \<Rightarrow> string \<Rightarrow> js_error + (world \<times> effect list)" where
  "saveBlockContent br w blockId html =
     (let sanitizedContent = sanitizeHtml br html
      in case locateBlock w blockId of
        Inl e \<Rightarrow> Inl e
      | Inr (pages, None) \<Rightarrow> Inr (w, [])
      | Inr (pages, Some (pageIndex, blockIndex)) \<Rightarrow>
         (case update w (Path (''document.pages.'' @ decimal pageIndex @ ''.blocks.''
                               @ decimal blockIndex @ ''.content'') (Str sanitizedContent)) of
            Inl e \<Rightarrow> Inl e
          | Inr (w1, effs1) \<Rightarrow>
             (case update w1 (Path ''ui.autoSaveStatus'' (Str ''saving'')) of
                Inl e \<Rightarrow> Inl e
              | Inr (w2, effs2) \<Rightarrow> Inr (w2, effs1 @ effs2))))"



text \<open>
  \<open>insertContent\<close>, statement by statement: the panel is closed and \<open>mentionTriggerPos\<close>
  set to \<open>null\<close>; then, if \<open>mentionTriggerPos\<close> is set, the range from the trigger to the
  end of the selection is deleted; then the content is inserted and saved.
\<close>

definition insertContent :: "browser \<Rightarrow> textEditor \<Rightarrow> world \<Rightarrow> string \<Rightarrow> js_error + (textEditor \<times> world \<times> effect list)" where
  "insertContent br te w html =
     (let hidden = emit w ''mention:hide'' Undefined;
          te1 = te\<lparr>mentionTriggerPos := None\<rparr>
      in case activeEditor te1 of
           None \<Rightarrow> Inr (te1, w, hidden)
         | Some ed \<Rightarrow>
            (let ed1 = (case mentionTriggerPos te1 of
                          Some trigger \<Rightarrow>
                            deleteContents br (rangeStartOffset trigger) (endOffset ed) ed
                        | None \<Rightarrow> ed);
                 ed2 = insertHTML br html ed1
             in case saveBlockContent br w (parentBlockId ed2) (content ed2) of
                  Inl e \<Rightarrow> Inl e
                | Inr (w', effs) \<Rightarrow>
                   Inr (te1\<lparr>activeEditor := Some ed2\<rparr>, w', hidden @ effs)))"

section \<open>MentionSystem\<close>

text \<open>
  The catalog. \<open>itemId\<close> and \<open>kind\<close> are the fields \<open>id\<close> and \<open>type\<close> of an item;
  \<open>params\<close> holds its numeric fields (\<open>level\<close>, \<open>rows\<close>, \<open>cols\<close>, \<open>count\<close>); the icon is
  given by its code units; the multiplication sign of the labels is the code unit
  \<open>0xD7\<close>.
\<close>

record suggestion =
  itemId :: string
  kind :: string
  params :: "(string \<times> nat) list"
  icon :: "nat list"
  label :: string
  description :: string

definition suggestions :: "suggestion list" where
  "suggestions = [
     \<lparr>itemId = ''h1'', kind = ''heading'', params = [(''level'', 1)], icon = [72, 49],
      label = ''Heading 1'', description = ''Big section heading''\<rparr>,
     \<lparr>itemId = ''h2'', kind = ''heading'', params = [(''level'', 2)], icon = [72, 50],
      label = ''Heading 2'', description = ''Medium section heading''\<rparr>,
     \<lparr>itemId = ''h3'', kind = ''heading'', params = [(''level'', 3)], icon = [72, 51],
      label = ''Heading 3'', description = ''Small section heading''\<rparr>,
     \<lparr>itemId = ''table'', kind = ''table'', params = [(''rows'', 3), (''cols'', 3)],
      icon = [8862], label = ''Table'', description = ''Insert a table''\<rparr>,
     \<lparr>itemId = ''table-2x2'', kind = ''table'', params = [(''rows'', 2), (''cols'', 2)],
      icon = [8862], label = ''Table 2'' @ [CHR 0xD7] @ ''2'',
      description = ''Insert a 2'' @ [CHR 0xD7] @ ''2 table''\<rparr>,
     \<lparr>itemId = ''table-3x3'', kind = ''table'', params = [(''rows'', 3), (''cols'', 3)],
      icon = [8862], label = ''Table 3'' @ [CHR 0xD7] @ ''3'',
      description = ''Insert a 3'' @ [CHR 0xD7] @ ''3 table''\<rparr>,
     \<lparr>itemId = ''table-4x4'', kind = ''table'', params = [(''rows'', 4), (''cols'', 4)],
      icon = [8862], label = ''Table 4'' @ [CHR 0xD7] @ ''4'',
      description = ''Insert a 4'' @ [CHR 0xD7] @ ''4 table''\<rparr>,
     \<lparr>itemId = ''cols-2'', kind = ''columns'', params = [(''count'', 2)], icon = [10996],
      label = ''2 Columns'', description = ''Insert 2-column layout''\<rparr>,
     \<lparr>itemId = ''cols-3'', kind = ''columns'', params = [(''count'', 3)], icon = [10998],
      label = ''3 Columns'', description = ''Insert 3-column layout''\<rparr>,
     \<lparr>itemId = ''cols-4'', kind = ''columns'', params = [(''count'', 4)], icon = [11000],
      label = ''4 Columns'', description = ''Insert 4-column layout''\<rparr>,
     \<lparr>itemId = ''field'', kind = ''field'', params = [], icon = [123, 125],
      label = ''Field'', description = ''Insert a dynamic field''\<rparr>]"

definition filterItems :: "string \<Rightarrow> suggestion list" where
  "filterItems q =
     (if q = [] then suggestions
      else (let lowered = toLowerCase q
            in filter (\<lambda>item.
                 includesStr (toLowerCase (label item)) lowered
                 \<or> includesStr (toLowerCase (description item)) lowered) suggestions))"

section \<open>Sessions\<close>

text \<open>
  A session is a list of calls to StateManager and EventSystem, made one after the other
  by the application; it stops at the first exception. Code outside the two modules
  holds its own functions only, so \<open>DoOn\<close> registers a \<open>Callback\<close>; a closure of
  \<open>watch\<close> enters the listener table through \<open>DoWatch\<close> alone.
\<close>

datatype command =
    DoUpdate updates
  | DoUndo
  | DoRedo
  | DoReset
  | DoWatch watch_paths nat
  | DoOn string nat
  | DoOff string handler
  | DoCleanup

fun perform :: "world \<Rightarrow> command \<Rightarrow> js_error + (world \<times> effect list)" where
  "perform w (DoUpdate u) = update w u"
| "perform w DoUndo = undo w"
| "perform w DoRedo = redo w"
| "perform w DoReset = reset w"
| "perform w (DoWatch paths c) = Inr (snd (watch w paths c), [])"
| "perform w (DoOn event c) = Inr (w\<lparr>listeners := on (listeners w) event (Callback c)\<rparr>, [])"
| "perform w (DoOff event h) = Inr (unsubscribe w event h, [])"
| "perform w DoCleanup = Inr (w\<lparr>listeners := cleanup (listeners w)\<rparr>, [])"

fun run :: "world \<Rightarrow> command list \<Rightarrow> js_error + (world \<times> effect list)" where
  "run w [] = Inr (w, [])"
| "run w (c # cs) =
     (case perform w c of
        Inl e \<Rightarrow> Inl e
      | Inr (w', effs) \<Rightarrow>
         (case run w' cs of
            Inl e \<Rightarrow> Inl e
          | Inr (w'', effs') \<Rightarrow> Inr (w'', effs @ effs')))"



section \<open>Notions of the specification\<close>

text \<open>\<open>state.history.past\<close> and \<open>state.history.future\<close>, when they are arrays.\<close>

definition pastOf :: "jsval \<Rightarrow> jsval list option" where
  "pastOf st =
     (case getProp st ''history'' of
        Inl e \<Rightarrow> None
      | Inr h \<Rightarrow> (case getProp h ''past'' of Inr (Arr ps) \<Rightarrow> Some ps | _ \<Rightarrow> None))"

definition futureOf :: "jsval \<Rightarrow> jsval list option" where
  "futureOf st =
     (case getProp st ''history'' of
        Inl e \<Rightarrow> None
      | Inr h \<Rightarrow> (case getProp h ''future'' of Inr (Arr fs) \<Rightarrow> Some fs | _ \<Rightarrow> None))"

text \<open>A state with a history: \<open>history.past\<close> and \<open>history.future\<close> are arrays.\<close>

definition wellFormed :: "jsval \<Rightarrow> bool" where
  "wellFormed st = (pastOf st \<noteq> None \<and> futureOf st \<noteq> None)"


text \<open>The paths that a commit records, and a commit that writes nothing under \<open>history\<close>.\<close>

definition recordedPaths :: "updates \<Rightarrow> string list" where
  "recordedPaths u = map fst (entries u)"

definition segments :: "string \<Rightarrow> string list" where
  "segments path = splitOn CHR ''.'' path"

definition offHistory :: "updates \<Rightarrow> bool" where
  "offHistory u = list_all (\<lambda>path. hd (segments path) \<noteq> ''history'') (recordedPaths u)"

definition realCommit :: "updates \<Rightarrow> bool" where
  "realCommit u = (recordedPaths u \<noteq> [] \<and> offHistory u)"



text \<open>A call of a callback by the closure that \<open>watch\<close> made for it.\<close>

fun isWatchCall :: "effect \<Rightarrow> bool" where
  "isWatchCall (Call (WatchHandler i paths c) data) = True"
| "isWatchCall eff = False"

text \<open>
  The filter in the words of the specification: an item matches a query if the query,
  in lower case, is a substring of its label or of its description in lower case.
\<close>

definition matchesQuery :: "string \<Rightarrow> suggestion \<Rightarrow> bool" where
  "matchesQuery q item =
     (sublist (toLowerCase q) (toLowerCase (label item))
      \<or> sublist (toLowerCase q) (toLowerCase (description item)))"

text \<open>The content of the active editor after an operation of TextEditor.\<close>

definition contentAfter :: "js_error + (textEditor \<times> world \<times> effect list) \<Rightarrow> string option" where
  "contentAfter r =
     (case r of
        Inl e \<Rightarrow> None
      | Inr (te, w, effs) \<Rightarrow> map_option content (activeEditor te))"


section \<open>Sample data\<close>

text \<open>
  The world right after the scripts have loaded, with the three random texts of the
  initial identifiers fixed, and an editor in which the user has typed \<open>/tab\<close> into
  the only block, the slash at offset 0 and the cursor at offset 4.
\<close>

definition freshWorld :: world where
  "freshWorld = startWorld (makeInitialState ''d1'' ''p1'' ''b1'')"

definition typedSlashTab :: textEditor where
  "typedSlashTab =
     \<lparr>activeEditor = Some \<lparr>parentBlockId = ''block-b1'', content = ''/tab'',
                            startOffset = 4, endOffset = 4\<rparr>,
      lastKeyPressed = Some ''b'',
      mentionTriggerPos = Some \<lparr>rangeStartOffset = 0, query = ''tab''\<rparr>\<rparr>"





text \<open>A small state with a history, and the world that starts from it.\<close>

definition counterState :: jsval where
  "counterState =
     Obj [(''ui'', Obj [(''x'', Num 0)]),
          (''history'', Obj [(''past'', Arr []), (''future'', Arr [])])]"

definition counterWorld :: world where
  "counterWorld = startWorld counterState"


definition watchedSession :: "command list" where
  "watchedSession =
     [DoWatch (OnePath ''ui.x'') 7, DoOn ''state:undo'' 9, DoUpdate (Path ''ui.x'' (Num 1))]"

section \<open>Where the closures of watch are registered\<close>

text \<open>
  The listener table is \<open>confined\<close> if the closures made by \<open>watch\<close> occur in it only
  under the event \<open>state:changed\<close>.
\<close>

fun isCallback :: "handler \<Rightarrow> bool" where
  "isCallback (Callback c) = True"
| "isCallback h = False"

definition confined :: "(string \<times> handler list) list \<Rightarrow> bool" where
  "confined ls =
     list_all (\<lambda>entry. fst entry = ''state:changed'' \<or> list_all isCallback (snd entry)) ls"


definition sixtyCommits :: "updates list" where
  "sixtyCommits = map (\<lambda>n. Path ''counter'' (Num (int n))) [0..<60]"

section \<open>Notions for the history\<close>


text \<open>\<open>past\<close> after a push: the oldest entry goes once there are more than 50.\<close>

definition capped :: "jsval list \<Rightarrow> jsval list" where
  "capped xs = (if length xs > 50 then tl xs else xs)"



text \<open>A commit of one value at a top-level key other than \<open>history\<close>.\<close>

definition topLevelWrite :: "updates \<Rightarrow> bool" where
  "topLevelWrite u =
     (case u of
        Path path v \<Rightarrow> (case segments path of [k] \<Rightarrow> k \<noteq> ''history'' | _ \<Rightarrow> False)
      | Updates us \<Rightarrow> False)"

section \<open>Strings and paths\<close>

lemma char_of_nat_eq: "(char_of (n::nat) = c) = (n mod 256 = of_char c)"
  by (simp add: char_of_eq_iff take_bit_eq_mod)

lemma startsWith_prefix: "startsWith s q = prefix q s"
  by (induction s q rule: startsWith.induct) auto

lemma includesStr_sublist: "includesStr s q = sublist q s"
  by (induction s) (auto simp: startsWith_prefix sublist_Cons_right)

section \<open>The length of the JSON text\<close>

text \<open>
  \<open>deepClone\<close> returns the copy or throws; on a value other than \<open>undefined\<close> it throws
  only when the text is too long. The copy has the text of the original, an item or a
  member has a shorter text than the array or the object it is in, and an array with one
  more item has a text at least as long as the array and the item together.
\<close>

lemma deepClone_Inr: "deepClone v = Inr c \<Longrightarrow> v \<noteq> Undefined \<and> fits v \<and> c = jsonCopy v"
  by (auto simp: deepClone_def split: if_splits)

lemma jsonCopy_Undefined_iff [simp]: "jsonCopy v = Undefined \<longleftrightarrow> v = Undefined"
  by (cases v) auto

lemma jsonLength_jsonCopy: "jsonLength (jsonCopy v) = jsonLength v"
proof (induction v)
  case (Arr xs)
  then have "sum_list (map (\<lambda>x. if x = Undefined then 4 else jsonLength x)
                 (map undefinedToNull (map jsonCopy xs)))
      = sum_list (map (\<lambda>x. if x = Undefined then 4 else jsonLength x) xs)"
    by (induction xs) (auto simp: undefinedToNull_def)
  then show ?case by simp
next
  case (Obj kvs)
  define G where "G = (\<lambda>xs :: (string \<times> jsval) list.
    filter (\<lambda>kv. snd kv \<noteq> Undefined) (map (map_prod id jsonCopy) xs))"
  define F where "F = (\<lambda>xs :: (string \<times> jsval) list.
    sum_list (map (\<lambda>kv. if snd kv = Undefined then 0
                           else quotedLength (fst kv) + 1 + jsonLength (snd kv)) xs))"
  define N where "N = (\<lambda>xs :: (string \<times> jsval) list.
    length (filter (\<lambda>kv. snd kv \<noteq> Undefined) xs))"
  have G_Nil: "G [] = []"
    by (simp add: G_def)
  have G_Cons: "\<And>k v xs. G ((k, v) # xs) = (if v = Undefined then G xs else (k, jsonCopy v) # G xs)"
    by (simp add: G_def)
  have F_Cons: "\<And>k v xs. F ((k, v) # xs)
      = (if v = Undefined then 0 else quotedLength k + 1 + jsonLength v) + F xs"
    by (simp add: F_def)
  have N_Cons: "\<And>k v xs. N ((k, v) # xs) = (if v = Undefined then N xs else Suc (N xs))"
    by (simp add: N_def)
  have "F (G kvs) = F kvs \<and> N (G kvs) = N kvs"
    using Obj
  proof (induction kvs)
    case Nil
    show ?case by (simp add: G_Nil)
  next
    case (Cons kv kvs)
    obtain k v where kv: "kv = (k, v)" by (cases kv)
    have one: "jsonLength (jsonCopy v) = jsonLength v"
      using Cons.prems[of kv v] kv by simp
    have rest: "F (G kvs) = F kvs \<and> N (G kvs) = N kvs"
      using Cons.prems by (intro Cons.IH) auto
    show ?case
      unfolding kv using one rest by (simp add: G_Cons F_Cons N_Cons)
  qed
  then show ?case by (simp add: G_def F_def N_def)
qed simp_all



lemma jsonLength_snoc: "jsonLength (Arr xs) + jsonLength x \<le> jsonLength (Arr (xs @ [x]))"
  by (cases "x = Undefined") simp_all

lemma jsonLength_member: "map_of kvs k = Some v \<Longrightarrow> jsonLength v \<le> jsonLength (Obj kvs)"
proof -
  let ?f = "\<lambda>kv :: string \<times> jsval. if snd kv = Undefined then 0 else quotedLength (fst kv) + 1 + jsonLength (snd kv)"
  assume "map_of kvs k = Some v"
  then have "(k, v) \<in> set kvs"
    by (rule map_of_SomeD)
  then have "?f (k, v) \<in> set (map ?f kvs)"
    by force
  then have "?f (k, v) \<le> sum_list (map ?f kvs)"
    by (rule member_le_sum_list) simp
  then show ?thesis by (simp split: if_splits)
qed


text \<open>From here on the length of a text is computed on concrete values only.\<close>

declare jsonLength.simps [simp del]

section \<open>Suggestion filtering\<close>

lemma filterItems_matches: "q \<noteq> [] \<Longrightarrow> filterItems q = filter (matchesQuery q) suggestions"
  by (simp add: filterItems_def matchesQuery_def[abs_def] includesStr_sublist Let_def)

lemma filterItems_subseq: "subseq (filterItems q) suggestions"
  by (simp add: filterItems_def Let_def)

lemma filterItems_case_insensitive:
  "toLowerCase q = toLowerCase q' \<Longrightarrow> filterItems q = filterItems q'"
  by (auto simp: filterItems_def Let_def toLowerCase_def)

lemma filterItems_table_kind:
  "filterItems ''table'' = filter (\<lambda>item. kind item = ''table'') suggestions"
  by (simp add: filterItems_def suggestions_def toLowerCase_def lowerChar_def Let_def)

lemma filterItems_table_ids:
  "map itemId (filterItems ''table'') = [''table'', ''table-2x2'', ''table-3x3'', ''table-4x4'']"
  by (simp add: filterItems_def suggestions_def toLowerCase_def lowerChar_def Let_def)

text \<open>
  Claim C9. The filter of the suggestions is a stable, case-insensitive substring filter
  over label and description: the empty query returns the whole catalog in its order; a
  query that is not empty returns, in the order of the catalog, exactly the items one of
  whose label and description contains it when both sides are put in lower case; two
  queries that agree in lower case return the same items; and the query \<open>table\<close>
  returns exactly the four items of kind table, so no heading, column or field item.
\<close>

theorem suggestion_filtering:
  "filterItems [] = suggestions
   \<and> (\<forall>q. q \<noteq> [] \<longrightarrow> filterItems q = filter (matchesQuery q) suggestions)
   \<and> (\<forall>q. subseq (filterItems q) suggestions)
   \<and> (\<forall>q q'. toLowerCase q = toLowerCase q' \<longrightarrow> filterItems q = filterItems q')
   \<and> filterItems ''table'' = filter (\<lambda>item. kind item = ''table'') suggestions
   \<and> map itemId (filterItems ''table'') = [''table'', ''table-2x2'', ''table-3x3'', ''table-4x4'']"
proof (intro conjI allI impI)
  show "filterItems [] = suggestions"
    by (simp add: filterItems_def)
next
  fix q :: string
  assume "q \<noteq> []"
  then show "filterItems q = filter (matchesQuery q) suggestions"
    by (rule filterItems_matches)
next
  fix q
  show "subseq (filterItems q) suggestions"
    by (rule filterItems_subseq)
next
  fix q q'
  assume "toLowerCase q = toLowerCase q'"
  then show "filterItems q = filterItems q'"
    by (rule filterItems_case_insensitive)
next
  show "filterItems ''table'' = filter (\<lambda>item. kind item = ''table'') suggestions"
    by (rule filterItems_table_kind)
next
  show "map itemId (filterItems ''table'') = [''table'', ''table-2x2'', ''table-3x3'', ''table-4x4'']"
    by (rule filterItems_table_ids)
qed

theorem suggestion_filtering_witness:
  "''TaBle'' \<noteq> [] \<and> toLowerCase ''TABLE'' = toLowerCase ''table''
   \<and> filterItems ''TaBle'' = filter (matchesQuery ''TaBle'') suggestions
   \<and> filterItems ''TABLE'' = filterItems ''table''"
proof -
  have nonempty: "''TaBle'' \<noteq> []"
    by simp
  have lower: "toLowerCase ''TABLE'' = toLowerCase ''table''"
    by (simp add: toLowerCase_def lowerChar_def Let_def char_of_nat_eq)
  from suggestion_filtering
  have matches: "\<forall>q. q \<noteq> [] \<longrightarrow> filterItems q = filter (matchesQuery q) suggestions"
    and insensitive: "\<forall>q q'. toLowerCase q = toLowerCase q' \<longrightarrow> filterItems q = filterItems q'"
    by blast+
  from matches nonempty have "filterItems ''TaBle'' = filter (matchesQuery ''TaBle'') suggestions"
    by blast
  moreover from insensitive lower have "filterItems ''TABLE'' = filterItems ''table''"
    by blast
  ultimately show ?thesis
    using nonempty lower by blast
qed

section \<open>Reading a missing path\<close>




text \<open>But \<open>get\<close> passes the result to \<open>deepClone\<close>, which throws on \<open>undefined\<close>.\<close>

lemma get_of_undefined:
  "getValueAtPath (state w) path = Inr Undefined \<Longrightarrow> get w path = Inl SyntaxError"
  by (simp add: get_def deepClone_def)


text \<open>
  Claim C2 says that \<open>get\<close> of a path with no value returns \<open>undefined\<close> and raises
  nothing. In the world right after loading, \<open>get('document.missing')\<close> throws the
  SyntaxError of \<open>JSON.parse\<close>, whatever the random identifiers are.
\<close>

theorem get_missing_path_throws:
  "get (startWorld (makeInitialState r1 r2 r3)) ''document.missing'' = Inl SyntaxError"
  by (simp add: get_def startWorld_def makeInitialState_def getValueAtPath_def deepClone_def)

section \<open>Committing a suggestion\<close>

text \<open>
  \<open>insertContent\<close> clears \<open>mentionTriggerPos\<close> before it tests it, so the trigger it was
  called with makes no difference, and neither does \<open>deleteContents\<close>: the range is never
  deleted.
\<close>

lemma insertContent_ignores_trigger:
  "insertContent br (te\<lparr>mentionTriggerPos := t\<rparr>) w html = insertContent br te w html"
  by (simp add: insertContent_def)

lemma insertContent_never_deletes:
  "insertContent (br\<lparr>deleteContents := d\<rparr>) te w html = insertContent br te w html"
  by (simp add: insertContent_def saveBlockContent_def Let_def split: option.split)

lemma insertContent_inserts_only:
  assumes "insertContent br te w html = Inr (te', w', effs)" and "activeEditor te = Some ed"
  shows "activeEditor te' = Some (insertHTML br html ed)"
  using assms
  by (auto simp: insertContent_def Let_def split: sum.splits prod.splits)

text \<open>
  Claim C3 says that committing an item deletes the text from the anchor to the cursor
  before the payload is inserted. With \<open>/tab\<close> typed and the payload \<open><T>\<close> committed,
  the content of the editor becomes \<open>/tab<T>\<close>: the trigger character and the query
  are still there.
\<close>

theorem insertContent_keeps_trigger_text:
  "contentAfter (insertContent plainText typedSlashTab freshWorld ''<T>'') = Some ''/tab<T>''"
  by (simp add: contentAfter_def insertContent_def plainText_def saveBlockContent_def
      typedSlashTab_def freshWorld_def locateBlock_def getState_def deepClone_def
      startWorld_def makeInitialState_def generateId_def update_def setValueAtPath_def
      pushHistory_def emit_def listenersFor_def arrayIndex_def isDigit_def
      numeral_value_def char_of_nat_eq undefinedToNull_def fits_def maxStringLength_def
      quotedLength_def escapedLength_def jsonLength.simps)

section \<open>Segments of a path\<close>

text \<open>
  \<open>hasPathChanged\<close> compares strings: \<open>changedPath.startsWith(path + '.')\<close>. This is
  the same as a comparison of segments, because joining the pieces of \<open>split\<close> gives
  the string back.
\<close>

lemma splitOn_nonempty [simp]: "splitOn sep s \<noteq> []"
  by (induction s) (auto split: list.splits)







section \<open>What a commit records and whom it notifies\<close>

lemma setAll_paths:
  "setAll obj cps us = Inr (obj', cps') \<Longrightarrow> cps' = cps @ map fst us"
proof (induction us arbitrary: obj cps)
  case Nil
  then show ?case by simp
next
  case (Cons u us)
  from Cons.prems obtain obj1 where rest: "setAll obj1 (cps @ [fst u]) us = Inr (obj', cps')"
    by (auto simp: setValueAtPath_def split: sum.splits)
  from Cons.IH[OF rest] show ?case by simp
qed

lemma update_changedPaths:
  "update w u = Inr (w', effs) \<Longrightarrow> changedPaths w' = recordedPaths u"
  by (auto simp: update_def recordedPaths_def Let_def dest!: setAll_paths split: sum.splits prod.splits if_splits)

lemma update_listeners:
  "update w u = Inr (w', effs) \<Longrightarrow> listeners w' = listeners w"
  by (auto simp: update_def Let_def split: sum.splits prod.splits if_splits)


lemma update_no_paths:
  assumes "update w u = Inr (w', effs)" and "changedPaths w' = []"
  shows "w' = w\<lparr>changedPaths := []\<rparr> \<and> effs = []"
proof -
  from assms have "entries u = []"
    using update_changedPaths[OF assms(1)] by (simp add: recordedPaths_def)
  with assms(1) show ?thesis
    by (auto simp: update_def split: sum.splits)
qed


text \<open>The definitions that a run on concrete data unfolds.\<close>

lemmas eval_defs = update_def setValueAtPath_def pushHistory_def emit_def listenersFor_def
  deepClone_def undefinedToNull_def arrayIndex_def isDigit_def numeral_value_def
  fits_def maxStringLength_def quotedLength_def escapedLength_def jsonLength.simps

text \<open>
  Claim C6. A commit that records no changed path adds no history entry: the state, and
  with it \<open>history.past\<close> and \<open>history.future\<close>, is as before, and no listener is
  called.
\<close>

theorem empty_commit_costs_nothing:
  assumes "update w u = Inr (w', effs)" and "changedPaths w' = []"
  shows "state w' = state w \<and> pastOf (state w') = pastOf (state w)
         \<and> futureOf (state w') = futureOf (state w)
         \<and> listeners w' = listeners w \<and> effs = []"
  using update_no_paths[OF assms] by simp

theorem empty_commit_costs_nothing_witness:
  "update counterWorld (Updates []) = Inr (counterWorld, [])
   \<and> changedPaths counterWorld = []
   \<and> state counterWorld = state counterWorld
   \<and> pastOf (state counterWorld) = Some []"
proof -
  have run: "update counterWorld (Updates []) = Inr (counterWorld, [])"
    by (simp add: counterWorld_def counterState_def startWorld_def eval_defs)
  have none: "changedPaths counterWorld = []"
    by (simp add: counterWorld_def startWorld_def)
  have "pastOf (state counterWorld) = Some []"
    by (simp add: counterWorld_def counterState_def startWorld_def pastOf_def)
  with empty_commit_costs_nothing[OF run none] run none show ?thesis
    by simp
qed




section \<open>Watchers and the events of undo, redo and reset\<close>

lemma confined_assign:
  "confined ls \<Longrightarrow> event = ''state:changed'' \<or> list_all isCallback hs \<Longrightarrow> confined (assign event hs ls)"
  by (induction ls) (auto simp: confined_def)

lemma confined_listenersFor:
  assumes "confined ls" and "event \<noteq> ''state:changed''"
  shows "list_all isCallback (listenersFor ls event)"
proof (cases "map_of ls event")
  case None
  then show ?thesis by (simp add: listenersFor_def)
next
  case (Some hs)
  then have "(event, hs) \<in> set ls"
    by (rule map_of_SomeD)
  with assms have "list_all isCallback hs"
    by (auto simp: confined_def list_all_iff)
  with Some show ?thesis by (simp add: listenersFor_def)
qed

lemma confined_on_Callback: "confined ls \<Longrightarrow> confined (on ls event (Callback c))"
  unfolding on_def
  by (rule confined_assign) (auto dest: confined_listenersFor)

lemma confined_on_stateChanged: "confined ls \<Longrightarrow> confined (on ls ''state:changed'' h)"
  unfolding on_def by (rule confined_assign) auto

lemma confined_off: "confined ls \<Longrightarrow> confined (off ls event h)"
proof (cases "map_of ls event")
  case None
  assume "confined ls"
  with None show ?thesis by (simp add: off_def)
next
  case (Some hs)
  assume c: "confined ls"
  from Some have "(event, hs) \<in> set ls" by (rule map_of_SomeD)
  with c have "event = ''state:changed'' \<or> list_all isCallback (filter (\<lambda>cb. cb \<noteq> h) hs)"
    by (auto simp: confined_def list_all_iff)
  with c Some show ?thesis
    by (simp add: off_def confined_assign)
qed

lemma confined_cleanup: "confined (cleanup ls)"
  by (simp add: confined_def cleanup_def list_all_iff)

lemma undo_effects:
  assumes "undo w = Inr (w', effs)"
  shows "listeners w' = listeners w \<and> changedPaths w' = changedPaths w
         \<and> (effs = [] \<or> (\<exists>d. effs = emit w' ''state:undo'' d))"
  using assms
  by (auto simp: undo_def Let_def split: sum.splits bool.splits jsval.splits)

lemma redo_effects:
  assumes "redo w = Inr (w', effs)"
  shows "listeners w' = listeners w \<and> changedPaths w' = changedPaths w
         \<and> (effs = [] \<or> (\<exists>d. effs = emit w' ''state:redo'' d))"
  using assms
  by (auto simp: redo_def Let_def split: sum.splits bool.splits jsval.splits)

lemma reset_effects:
  assumes "reset w = Inr (w', effs)"
  shows "listeners w' = listeners w \<and> changedPaths w' = changedPaths w
         \<and> (\<exists>d. effs = emit w' ''state:reset'' d)"
  using assms
  by (auto simp: reset_def Let_def split: sum.splits)

lemma perform_confined:
  assumes "confined (listeners w)" and "perform w c = Inr (w', effs)"
  shows "confined (listeners w')"
proof (cases c)
  case (DoUpdate u)
  with assms show ?thesis by (auto dest: update_listeners)
next
  case DoUndo
  with assms show ?thesis by (auto dest: undo_effects)
next
  case DoRedo
  with assms show ?thesis by (auto dest: redo_effects)
next
  case DoReset
  with assms show ?thesis by (auto dest: reset_effects)
next
  case (DoWatch paths cb)
  with assms show ?thesis by (auto simp: watch_def Let_def confined_on_stateChanged)
next
  case (DoOn event cb)
  with assms show ?thesis by (auto simp: confined_on_Callback)
next
  case (DoOff event h)
  with assms show ?thesis by (auto simp: unsubscribe_def confined_off)
next
  case DoCleanup
  with assms show ?thesis by (auto simp: confined_cleanup)
qed

lemma run_confined:
  "confined (listeners w) \<Longrightarrow> run w cs = Inr (w', effs) \<Longrightarrow> confined (listeners w')"
proof (induction cs arbitrary: w effs)
  case Nil
  then show ?case by simp
next
  case (Cons c cs)
  from Cons.prems(2) obtain w1 e1 e2 where
    step: "perform w c = Inr (w1, e1)" and rest: "run w1 cs = Inr (w', e2)"
    by (auto split: sum.splits prod.splits)
  from perform_confined[OF Cons.prems(1) step] have "confined (listeners w1)" .
  from Cons.IH[OF this rest] show ?case .
qed

lemma emit_confined:
  assumes "confined (listeners w)" and "event \<noteq> ''state:changed''"
  shows "\<forall>eff\<in>set (emit w event d). \<not> isWatchCall eff"
proof
  fix eff
  assume "eff \<in> set (emit w event d)"
  then obtain h where h: "h \<in> set (listenersFor (listeners w) event)"
    and eff: "eff \<in> set (invoke (changedPaths w) d h)"
    by (auto simp: emit_def)
  from confined_listenersFor[OF assms] h have "isCallback h"
    by (simp add: list_all_iff)
  with eff show "\<not> isWatchCall eff"
    by (cases h) auto
qed

lemma silent_effects:
  assumes "confined (listeners w)" and "event \<noteq> ''state:changed''"
    and "effs = [] \<or> (\<exists>d. effs = emit w event d)"
  shows "\<forall>eff\<in>set effs. \<not> isWatchCall eff"
  using assms(3) emit_confined[OF assms(1,2)] by auto

text \<open>
  Claim C10. In every session that starts with an empty listener table, \<open>undo\<close>,
  \<open>redo\<close> and \<open>reset\<close> call no callback through a closure of \<open>watch\<close>: such a
  closure listens to \<open>state:changed\<close> only, and the three operations emit
  \<open>state:undo\<close>, \<open>state:redo\<close> and \<open>state:reset\<close>.
\<close>

theorem watchers_silent_on_undo_redo_reset:
  assumes "run (startWorld init) cmds = Inr (w, effs0)"
    and "c = DoUndo \<or> c = DoRedo \<or> c = DoReset"
    and "perform w c = Inr (w', effs)"
  shows "filter isWatchCall effs = []"
proof -
  have "confined (listeners (startWorld init))"
    by (simp add: startWorld_def confined_def)
  from run_confined[OF this assms(1)] have conf: "confined (listeners w)" .
  from assms(2) have "\<forall>eff\<in>set effs. \<not> isWatchCall eff"
  proof (elim disjE)
    assume "c = DoUndo"
    with assms(3) have u: "undo w = Inr (w', effs)" by simp
    from undo_effects[OF u] conf have "confined (listeners w')" by simp
    then show ?thesis
      by (rule silent_effects[where event = "''state:undo''"]) (use undo_effects[OF u] in auto)
  next
    assume "c = DoRedo"
    with assms(3) have u: "redo w = Inr (w', effs)" by simp
    from redo_effects[OF u] conf have "confined (listeners w')" by simp
    then show ?thesis
      by (rule silent_effects[where event = "''state:redo''"]) (use redo_effects[OF u] in auto)
  next
    assume "c = DoReset"
    with assms(3) have u: "reset w = Inr (w', effs)" by simp
    from reset_effects[OF u] conf have "confined (listeners w')" by simp
    then show ?thesis
      by (rule silent_effects[where event = "''state:reset''"]) (use reset_effects[OF u] in auto)
  qed
  then show ?thesis
    by (simp add: filter_empty_conv)
qed

theorem watchers_silent_witness:
  "\<exists>w effs0 w' effs. run (startWorld counterState) watchedSession = Inr (w, effs0)
      \<and> perform w DoUndo = Inr (w', effs)
      \<and> filter isWatchCall effs0 \<noteq> [] \<and> effs \<noteq> [] \<and> filter isWatchCall effs = []"
proof -
  obtain w effs0 where run: "run (startWorld counterState) watchedSession = Inr (w, effs0)"
    and called: "filter isWatchCall effs0 \<noteq> []"
    and undone: "\<exists>w' effs. perform w DoUndo = Inr (w', effs) \<and> effs \<noteq> []"
    by (simp add: watchedSession_def counterState_def startWorld_def watch_def on_def
        hasPathChanged_def undo_def eval_defs Let_def)
  from undone obtain w' effs where step: "perform w DoUndo = Inr (w', effs)" and some: "effs \<noteq> []"
    by blast
  from watchers_silent_on_undo_redo_reset[OF run _ step] have "filter isWatchCall effs = []"
    by simp
  with run step called some show ?thesis by blast
qed

section \<open>Snapshots and the shape of the history\<close>

lemma map_of_assign: "map_of (assign k v kvs) k' = (if k' = k then Some v else map_of kvs k')"
  by (induction kvs) auto





lemma arrayIndex_history [simp]: "arrayIndex ''history'' = None"
  by (simp add: arrayIndex_def isDigit_def)

lemma arrayIndex_past [simp]: "arrayIndex ''past'' = None"
  by (simp add: arrayIndex_def isDigit_def)

lemma arrayIndex_future [simp]: "arrayIndex ''future'' = None"
  by (simp add: arrayIndex_def isDigit_def)

lemma pastOf_SomeD:
  assumes "pastOf st = Some ps"
  shows "\<exists>kvs hk. st = Obj kvs \<and> map_of kvs ''history'' = Some (Obj hk)
                  \<and> map_of hk ''past'' = Some (Arr ps)"
proof -
  from assms obtain kvs where st: "st = Obj kvs"
    by (cases st) (auto simp: pastOf_def split: if_splits)
  with assms obtain h where h: "map_of kvs ''history'' = Some h"
    by (cases "map_of kvs ''history''") (auto simp: pastOf_def)
  with assms st obtain hk where hk: "h = Obj hk"
    by (cases h) (auto simp: pastOf_def split: if_splits)
  with assms st h have "map_of hk ''past'' = Some (Arr ps)"
    by (cases "map_of hk ''past''") (auto simp: pastOf_def split: jsval.splits)
  with st h hk show ?thesis by simp
qed

lemma futureOf_SomeD:
  assumes "futureOf st = Some fs"
  shows "\<exists>kvs hk. st = Obj kvs \<and> map_of kvs ''history'' = Some (Obj hk)
                  \<and> map_of hk ''future'' = Some (Arr fs)"
proof -
  from assms obtain kvs where st: "st = Obj kvs"
    by (cases st) (auto simp: futureOf_def split: if_splits)
  with assms obtain h where h: "map_of kvs ''history'' = Some h"
    by (cases "map_of kvs ''history''") (auto simp: futureOf_def)
  with assms st obtain hk where hk: "h = Obj hk"
    by (cases h) (auto simp: futureOf_def split: if_splits)
  with assms st h have "map_of hk ''future'' = Some (Arr fs)"
    by (cases "map_of hk ''future''") (auto simp: futureOf_def split: jsval.splits)
  with st h hk show ?thesis by simp
qed

lemma wellFormedE:
  assumes "wellFormed st"
  obtains kvs hk ps fs where "st = Obj kvs" and "map_of kvs ''history'' = Some (Obj hk)"
    and "map_of hk ''past'' = Some (Arr ps)" and "map_of hk ''future'' = Some (Arr fs)"
proof -
  from assms obtain ps fs where "pastOf st = Some ps" and "futureOf st = Some fs"
    by (auto simp: wellFormed_def)
  from pastOf_SomeD[OF this(1)] futureOf_SomeD[OF this(2)] that show thesis
    by auto
qed

lemma history_shape:
  assumes "map_of kvs ''history'' = Some (Obj hk)"
    and "map_of hk ''past'' = Some (Arr ps)" and "map_of hk ''future'' = Some (Arr fs)"
  shows "wellFormed (Obj kvs)" and "pastOf (Obj kvs) = Some ps" and "futureOf (Obj kvs) = Some fs"
  using assms by (simp_all add: wellFormed_def pastOf_def futureOf_def)




section \<open>One commit, one undo, one redo\<close>

text \<open>
  A write at a path whose first segment is not \<open>history\<close> leaves the history of the
  state alone; the commit then pushes the snapshot taken before the write.
\<close>

lemma segments_nonempty [simp]: "segments path \<noteq> []"
  by (simp add: segments_def)

lemma setAtParts_top:
  assumes "setAtParts (Obj kvs) (k # ks) v = Inr s'"
  shows "\<exists>kvs'. s' = Obj kvs' \<and> (\<forall>k'. k' \<noteq> k \<longrightarrow> map_of kvs' k' = map_of kvs k')"
proof (cases ks)
  case Nil
  with assms show ?thesis
    by (auto simp: map_of_assign)
next
  case (Cons k2 ks2)
  with assms show ?thesis
    by (auto simp: map_of_assign split: sum.splits if_splits option.splits)
qed

lemma setValueAtPath_history:
  assumes "setValueAtPath (Obj kvs) cps path v = Inr (s', cps')"
    and "hd (segments path) \<noteq> ''history''"
  shows "\<exists>kvs'. s' = Obj kvs' \<and> map_of kvs' ''history'' = map_of kvs ''history''"
proof -
  obtain k ks where parts: "splitOn CHR ''.'' path = k # ks"
    by (cases "splitOn CHR ''.'' path") auto
  with assms(2) have k: "k \<noteq> ''history''"
    by (simp add: segments_def)
  from assms(1) parts have "setAtParts (Obj kvs) (k # ks) v = Inr s'"
    by (auto simp: setValueAtPath_def split: sum.splits)
  from setAtParts_top[OF this] k show ?thesis
    by auto
qed

lemma setAll_history:
  assumes "setAll (Obj kvs) cps us = Inr (s', cps')"
    and "list_all (\<lambda>path. hd (segments path) \<noteq> ''history'') (map fst us)"
  shows "\<exists>kvs'. s' = Obj kvs' \<and> map_of kvs' ''history'' = map_of kvs ''history''"
  using assms
proof (induction us arbitrary: kvs cps)
  case Nil
  then show ?case by auto
next
  case (Cons u us)
  from Cons.prems(1) obtain s1 cps1 where
    first: "setValueAtPath (Obj kvs) cps (fst u) (snd u) = Inr (s1, cps1)"
    and rest: "setAll s1 cps1 us = Inr (s', cps')"
    by (auto split: sum.splits prod.splits)
  from setValueAtPath_history[OF first] Cons.prems(2)
  obtain kvs1 where s1: "s1 = Obj kvs1" and same: "map_of kvs1 ''history'' = map_of kvs ''history''"
    by auto
  from Cons.IH[OF rest[unfolded s1]] Cons.prems(2) same show ?case
    by auto
qed

lemma pushHistory_shape:
  assumes "map_of kvs ''history'' = Some (Obj hk)" and "map_of hk ''past'' = Some (Arr ps)"
  shows "\<exists>hk'. pushHistory (Obj kvs) prev = Inr (Obj (assign ''history'' (Obj hk') kvs))
            \<and> map_of hk' ''past'' = Some (Arr (capped (ps @ [prev])))
            \<and> map_of hk' ''future'' = Some (Arr [])"
  using assms
  by (auto simp: pushHistory_def Let_def map_of_assign capped_def)

lemma update_steps:
  assumes "update w u = Inr (w', effs)" and "recordedPaths u \<noteq> []"
  shows "\<exists>st. setAll (state w) [] (entries u) = Inr (st, recordedPaths u)
           \<and> pushHistory st (jsonCopy (state w)) = Inr (state w')
           \<and> state w \<noteq> Undefined"
proof -
  from assms(1) obtain st cps where set: "setAll (state w) [] (entries u) = Inr (st, cps)"
    and defined: "state w \<noteq> Undefined"
    by (auto simp: update_def deepClone_def split: sum.splits if_splits)
  from setAll_paths[OF set] have cps: "cps = recordedPaths u"
    by (simp add: recordedPaths_def)
  with assms set defined have "pushHistory st (jsonCopy (state w)) = Inr (state w')"
    by (auto simp: update_def deepClone_def Let_def split: sum.splits if_splits)
  with set cps defined show ?thesis by auto
qed

lemma update_history:
  assumes "pastOf (state w) = Some ps" and "futureOf (state w) = Some fs"
    and "realCommit u" and "update w u = Inr (w', effs)"
  shows "wellFormed (state w')"
    and "pastOf (state w') = Some (capped (ps @ [jsonCopy (state w)]))"
    and "futureOf (state w') = Some []"
proof -
  from pastOf_SomeD[OF assms(1)]
  obtain kvs hk where st: "state w = Obj kvs" and h: "map_of kvs ''history'' = Some (Obj hk)"
    and p: "map_of hk ''past'' = Some (Arr ps)"
    by auto
  from assms(3) have paths: "recordedPaths u \<noteq> []" and off: "offHistory u"
    by (simp_all add: realCommit_def)
  from update_steps[OF assms(4) paths] obtain st1 where
    set: "setAll (state w) [] (entries u) = Inr (st1, recordedPaths u)"
    and push: "pushHistory st1 (jsonCopy (state w)) = Inr (state w')"
    by auto
  from setAll_history[OF set[unfolded st]] off
  obtain kvs1 where st1: "st1 = Obj kvs1" and h1: "map_of kvs1 ''history'' = Some (Obj hk)"
    using h by (auto simp: offHistory_def recordedPaths_def)
  from pushHistory_shape[OF h1 p, of "jsonCopy (state w)"] push st1
  obtain hk' where st': "state w' = Obj (assign ''history'' (Obj hk') kvs1)"
    and p': "map_of hk' ''past'' = Some (Arr (capped (ps @ [jsonCopy (state w)])))"
    and f': "map_of hk' ''future'' = Some (Arr [])"
    by auto
  have h': "map_of (assign ''history'' (Obj hk') kvs1) ''history'' = Some (Obj hk')"
    by (simp add: map_of_assign)
  from history_shape[OF h' p' f'] st'
  show "wellFormed (state w')"
    and "pastOf (state w') = Some (capped (ps @ [jsonCopy (state w)]))"
    and "futureOf (state w') = Some []"
    by simp_all
qed

lemma arrayIndex_length [simp]: "arrayIndex ''length'' = None"
  by (simp add: arrayIndex_def isDigit_def)


lemma update_fits:
  assumes "update w u = Inr (w', effs)" and "recordedPaths u \<noteq> []"
  shows "fits (state w)" and "fits (state w')"
proof -
  from assms(1) obtain st cps where set: "setAll (state w) [] (entries u) = Inr (st, cps)"
    by (auto simp: update_def split: sum.splits)
  from setAll_paths[OF set] assms(2) have "cps \<noteq> []"
    by (simp add: recordedPaths_def)
  with assms(1) set show "fits (state w)" and "fits (state w')"
    by (auto simp: update_def Let_def split: sum.splits dest!: deepClone_Inr)
qed



section \<open>Many undos, many redos\<close>

lemma run_append:
  "run w (as @ bs) =
     (case run w as of
        Inl e \<Rightarrow> Inl e
      | Inr (w', effs) \<Rightarrow>
         (case run w' bs of
            Inl e \<Rightarrow> Inl e
          | Inr (w'', effs') \<Rightarrow> Inr (w'', effs @ effs')))"
  by (induction as arbitrary: w) (auto split: sum.splits prod.splits)










lemma topLevelWrite_realCommit: "topLevelWrite u \<Longrightarrow> realCommit u"
  by (auto simp: topLevelWrite_def realCommit_def recordedPaths_def offHistory_def
      split: updates.splits list.splits)





section \<open>The cap of the history\<close>

text \<open>
  The snapshot that a commit pushes is the whole state, history included. While the cap
  is not reached, the text of \<open>past\<close> after a commit is at least the text of \<open>past\<close>
  before it and the text of the state before it together, and the state holds \<open>past\<close>:
  the text of \<open>past\<close> doubles at every commit.
\<close>

lemma pastOf_length: "pastOf st = Some ps \<Longrightarrow> jsonLength (Arr ps) \<le> jsonLength st"
proof -
  assume "pastOf st = Some ps"
  from pastOf_SomeD[OF this]
  obtain kvs hk where st: "st = Obj kvs" and h: "map_of kvs ''history'' = Some (Obj hk)"
    and p: "map_of hk ''past'' = Some (Arr ps)"
    by auto
  from jsonLength_member[OF p] jsonLength_member[OF h] st show ?thesis
    by simp
qed

lemma commits_double:
  assumes "wellFormed (state w0)" and "pastOf (state w0) = Some ps0"
    and "list_all realCommit us" and "run w0 (map DoUpdate us) = Inr (w, effs)"
    and "length ps0 + length us \<le> 50"
  shows "\<exists>ps. pastOf (state w) = Some ps \<and> length ps = length ps0 + length us
           \<and> 2 ^ length us * jsonLength (Arr ps0) \<le> jsonLength (Arr ps)
           \<and> (us \<noteq> [] \<longrightarrow> fits (state w))"
  using assms
proof (induction us arbitrary: w0 ps0 effs)
  case Nil
  then show ?case by simp
next
  case (Cons u us)
  from Cons.prems(4) obtain w1 e1 e2 where step: "update w0 u = Inr (w1, e1)"
    and rest: "run w1 (map DoUpdate us) = Inr (w, e2)"
    by (auto split: sum.splits prod.splits)
  from Cons.prems(1) obtain fs where fs: "futureOf (state w0) = Some fs"
    by (auto simp: wellFormed_def)
  from Cons.prems(3) have real: "realCommit u" and reals: "list_all realCommit us"
    by simp_all
  let ?s = "jsonCopy (state w0)"
  note h = update_history[OF Cons.prems(2) fs real step]
  from Cons.prems(5) have "capped (ps0 @ [?s]) = ps0 @ [?s]"
    by (simp add: capped_def)
  with h(2) have p1: "pastOf (state w1) = Some (ps0 @ [?s])"
    by simp
  from real have paths: "recordedPaths u \<noteq> []"
    by (simp add: realCommit_def)
  from update_fits(2)[OF step paths] have fits1: "fits (state w1)" .
  have "jsonLength (Arr ps0) + jsonLength ?s \<le> jsonLength (Arr (ps0 @ [?s]))"
    by (rule jsonLength_snoc)
  moreover have "jsonLength (Arr ps0) \<le> jsonLength ?s"
    using pastOf_length[OF Cons.prems(2)] by (simp add: jsonLength_jsonCopy)
  ultimately have twice: "2 * jsonLength (Arr ps0) \<le> jsonLength (Arr (ps0 @ [?s]))"
    by simp
  from Cons.prems(5) have room: "length (ps0 @ [?s]) + length us \<le> 50"
    by simp
  from Cons.IH[OF h(1) p1 reals rest room]
  obtain ps where past: "pastOf (state w) = Some ps"
    and len: "length ps = length (ps0 @ [?s]) + length us"
    and grown: "2 ^ length us * jsonLength (Arr (ps0 @ [?s])) \<le> jsonLength (Arr ps)"
    and fits': "us \<noteq> [] \<longrightarrow> fits (state w)"
    by blast
  have "2 ^ length (u # us) * jsonLength (Arr ps0) = 2 ^ length us * (2 * jsonLength (Arr ps0))"
    by simp
  also from twice have "\<dots> \<le> 2 ^ length us * jsonLength (Arr (ps0 @ [?s]))"
    by (rule mult_le_mono2)
  also note grown
  finally have grown': "2 ^ length (u # us) * jsonLength (Arr ps0) \<le> jsonLength (Arr ps)" .
  have "fits (state w)"
  proof (cases us)
    case Nil
    with rest fits1 show ?thesis by simp
  next
    case (Cons a list)
    with fits' show ?thesis by simp
  qed
  with past len grown' show ?case
    by simp
qed

text \<open>So no run makes 29 commits from an empty history, and none makes 60.\<close>

lemma commits_outgrow:
  assumes "wellFormed (state w0)" and "pastOf (state w0) = Some []"
    and "list_all realCommit us" and "29 \<le> length us"
  shows "run w0 (map DoUpdate us) \<noteq> Inr (w, effs)"
proof
  assume all: "run w0 (map DoUpdate us) = Inr (w, effs)"
  let ?first = "take 29 us"
  have "map DoUpdate us = map DoUpdate ?first @ map DoUpdate (drop 29 us)"
    by (simp add: map_append[symmetric] del: map_append)
  with all have "run w0 (map DoUpdate ?first @ map DoUpdate (drop 29 us)) = Inr (w, effs)"
    by simp
  then obtain w1 e1 where first: "run w0 (map DoUpdate ?first) = Inr (w1, e1)"
    by (auto simp: run_append split: sum.splits prod.splits)
  from assms(4) have len: "length ?first = 29"
    by simp
  from assms(3) have real: "list_all realCommit ?first"
    by (auto simp: list_all_iff dest: in_set_takeD)
  from len have room: "length ([]::jsval list) + length ?first \<le> 50"
    by simp
  from commits_double[OF assms(1,2) real first room] len
  obtain ps where past: "pastOf (state w1) = Some ps"
    and grown: "2 ^ 29 * jsonLength (Arr []) \<le> jsonLength (Arr ps)"
    and fits1: "fits (state w1)"
    by auto
  from pastOf_length[OF past] grown have "2 ^ 29 * jsonLength (Arr []) \<le> jsonLength (state w1)"
    by simp
  with fits1 show False
    by (simp add: fits_def maxStringLength_def jsonLength.simps)
qed

text \<open>A commit of one value at a top-level key can fail in one way only.\<close>

lemma update_topLevel_cases:
  assumes "wellFormed (state w)" and "topLevelWrite u"
  shows "update w u = Inl RangeError \<or> (\<exists>w' effs. update w u = Inr (w', effs))"
proof -
  from assms(2) obtain path v k where u: "u = Path path v"
    and parts: "splitOn CHR ''.'' path = [k]" and k: "k \<noteq> ''history''"
    by (auto simp: topLevelWrite_def segments_def split: updates.splits list.splits)
  from assms(1) obtain kvs hk ps fs where st: "state w = Obj kvs"
    and h: "map_of kvs ''history'' = Some (Obj hk)" and p: "map_of hk ''past'' = Some (Arr ps)"
    by (rule wellFormedE)
  have set: "setAll (state w) [] (entries u) = Inr (Obj (assign k v kvs), [path])"
    using u parts st by (simp add: setValueAtPath_def)
  have h': "map_of (assign k v kvs) ''history'' = Some (Obj hk)"
    using h k by (simp add: map_of_assign)
  from pushHistory_shape[OF h' p, of "jsonCopy (state w)"]
  obtain st' where "pushHistory (Obj (assign k v kvs)) (jsonCopy (state w)) = Inr (Obj st')"
    by blast
  with set st show ?thesis
    by (simp add: update_def deepClone_def Let_def)
qed

lemma run_topLevel_cases:
  assumes "wellFormed (state w)" and "list_all topLevelWrite us"
  shows "run w (map DoUpdate us) = Inl RangeError
       \<or> (\<exists>w' effs. run w (map DoUpdate us) = Inr (w', effs))"
  using assms
proof (induction us arbitrary: w)
  case Nil
  show ?case by simp
next
  case (Cons u us)
  from Cons.prems(2) have top: "topLevelWrite u" and tops: "list_all topLevelWrite us"
    by simp_all
  from update_topLevel_cases[OF Cons.prems(1) top]
  show ?case
  proof (elim disjE exE)
    assume "update w u = Inl RangeError"
    then show ?thesis by simp
  next
    fix w1 e1
    assume step: "update w u = Inr (w1, e1)"
    from Cons.prems(1) obtain ps fs where "pastOf (state w) = Some ps" "futureOf (state w) = Some fs"
      by (auto simp: wellFormed_def)
    from update_history(1)[OF this topLevelWrite_realCommit[OF top] step]
    have "wellFormed (state w1)" .
    from Cons.IH[OF this tops] step show ?thesis
      by auto
  qed
qed

lemma freshWorld_history:
  "wellFormed (state freshWorld)" "pastOf (state freshWorld) = Some []"
  by (simp_all add: freshWorld_def startWorld_def makeInitialState_def wellFormed_def
      pastOf_def futureOf_def)

lemma sixtyCommits_topLevel: "list_all topLevelWrite sixtyCommits"
  by (simp add: sixtyCommits_def list_all_iff topLevelWrite_def segments_def)

text \<open>
  Claim C5 says that 60 commits from an empty history leave 50 entries in \<open>past\<close>. No
  run gets that far. From the state right after loading, two commits of a counter go
  through and leave their two snapshots; the run of 60 throws the RangeError of
  \<open>JSON.stringify\<close>, and so does the run of the first 29 of them: the cap of 50 entries
  is never reached.
\<close>

theorem history_outgrows_string_length:
  "run freshWorld (map DoUpdate sixtyCommits) = Inl RangeError
   \<and> run freshWorld (map DoUpdate (take 29 sixtyCommits)) = Inl RangeError
   \<and> (\<exists>w effs. run freshWorld (map DoUpdate (take 2 sixtyCommits)) = Inr (w, effs)
         \<and> map_option length (pastOf (state w)) = Some 2)"
proof (intro conjI)
  have real: "list_all realCommit sixtyCommits"
    using sixtyCommits_topLevel by (simp add: list_all_iff topLevelWrite_realCommit)
  have "29 \<le> length sixtyCommits"
    by (simp add: sixtyCommits_def)
  from commits_outgrow[OF freshWorld_history real this]
    run_topLevel_cases[OF freshWorld_history(1) sixtyCommits_topLevel]
  show "run freshWorld (map DoUpdate sixtyCommits) = Inl RangeError"
    by auto
next
  have top: "list_all topLevelWrite (take 29 sixtyCommits)"
    using sixtyCommits_topLevel by (auto simp: list_all_iff dest: in_set_takeD)
  then have real: "list_all realCommit (take 29 sixtyCommits)"
    by (simp add: list_all_iff topLevelWrite_realCommit)
  have "29 \<le> length (take 29 sixtyCommits)"
    by (simp add: sixtyCommits_def)
  from commits_outgrow[OF freshWorld_history real this]
    run_topLevel_cases[OF freshWorld_history(1) top]
  show "run freshWorld (map DoUpdate (take 29 sixtyCommits)) = Inl RangeError"
    by auto
next
  have two: "take 2 sixtyCommits = [Path ''counter'' (Num 0), Path ''counter'' (Num 1)]"
    by (simp add: sixtyCommits_def upt_rec)
  show "\<exists>w effs. run freshWorld (map DoUpdate (take 2 sixtyCommits)) = Inr (w, effs)
         \<and> map_option length (pastOf (state w)) = Some 2"
    unfolding two
    by (simp add: freshWorld_def startWorld_def makeInitialState_def generateId_def
        pastOf_def eval_defs Let_def)
qed

section \<open>Deleting the last page, deleting the last block\<close>




section \<open>Duplicating a page\<close>




lemma arrayIndex_id [simp]: "arrayIndex ''id'' = None"
  by (simp add: arrayIndex_def isDigit_def)

lemma arrayIndex_blocks [simp]: "arrayIndex ''blocks'' = None"
  by (simp add: arrayIndex_def isDigit_def)

lemma arrayIndex_document [simp]: "arrayIndex ''document'' = None"
  by (simp add: arrayIndex_def isDigit_def)

lemma arrayIndex_pages [simp]: "arrayIndex ''pages'' = None"
  by (simp add: arrayIndex_def isDigit_def)




lemma segments_document_pages: "splitOn CHR ''.'' ''document.pages'' = [''document'', ''pages'']"
  by simp

lemma segments_ui_currentPage: "splitOn CHR ''.'' ''ui.currentPage'' = [''ui'', ''currentPage'']"
  by simp









end
